theory Spec2Isabelle
  imports Main "HOL-Library.While_Combinator" "HOL-Library.Sublist"
begin

section \<open>go-app-stager: paths, errors and collaborators\<close>

text \<open>
  The development embeds \<^verbatim>\<open>goroot-1.9/src/cmd/go-app-stager/gas.go\<close>.

  A file-system path is held as the list of the components of its cleaned, rooted form
  (the root directory is the empty list), so that \<^verbatim>\<open>filepath.Join(dir, name)\<close> for a
  directory entry name is \<open>dir @ [name]\<close> and \<^verbatim>\<open>filepath.Dir\<close> is \<open>butlast\<close>.
  An import path stays a string, as in the source.
\<close>

type_synonym path = "string list"

text \<open>\<^verbatim>\<open>strings.Split(s, "/")\<close>.\<close>

fun split_slash :: "string \<Rightarrow> string list" where
  "split_slash [] = [[]]"
| "split_slash (c # cs) =
     (if c = CHR ''/'' then [] # split_slash cs
      else (case split_slash cs of [] \<Rightarrow> [[c]] | w # ws \<Rightarrow> (c # w) # ws))"

text \<open>
  \<^verbatim>\<open>filepath.Clean\<close> applied while the slash-separated elements are appended to a rooted
  path: empty and \<^verbatim>\<open>.\<close> elements vanish, \<^verbatim>\<open>..\<close> removes the last component (and
  stays at the root).
\<close>

fun clean_onto :: "path \<Rightarrow> string list \<Rightarrow> path" where
  "clean_onto acc [] = acc"
| "clean_onto acc (c # cs) =
     (if c = [] \<or> c = ''.'' then clean_onto acc cs
      else if c = ''..'' then clean_onto (butlast acc) cs
      else clean_onto (acc @ [c]) cs)"

text \<open>\<^verbatim>\<open>filepath.Join(dir, s)\<close> for a rooted directory and a slash-separated string.\<close>

definition filepath_Join :: "path \<Rightarrow> string \<Rightarrow> path" where
  "filepath_Join d s = clean_onto d (split_slash s)"

text \<open>
  A Go \<^verbatim>\<open>error\<close>. \<open>Sys\<close> is an error value handed over by a collaborator (go/build, the
  operating system) with its text; \<open>Errorf\<close> is a value built by \<^verbatim>\<open>fmt.Errorf\<close>, kept
  as the format string of the source and its operands.
\<close>

datatype error = Sys string | Errorf string "arg list"
  and arg = Str string | Path path | Err error

text \<open>The fields of \<^verbatim>\<open>build.Package\<close> that the program reads.\<close>

record package =
  Name :: string
  ImportPath :: string
  SrcRoot :: path
  Dir :: path
  Imports :: "string list"

text \<open>\<^verbatim>\<open>(*build.Package).IsCommand\<close>.\<close>

definition IsCommand :: "package \<Rightarrow> bool" where
  "IsCommand p = (Name p = ''main'')"

record importFrom =
  path :: string
  fromDir :: path

text \<open>
  The source tree as the program's reads observe it. \<open>Link t\<close> is a symbolic link together
  with what lies behind it, \<open>Broken\<close> a symbolic link whose target \<^verbatim>\<open>os.Stat\<close> cannot
  reach, \<open>NoOpen\<close> a regular file that \<^verbatim>\<open>os.Open\<close> refuses, \<open>NoList\<close> a directory
  that \<^verbatim>\<open>ioutil.ReadDir\<close> refuses. A directory lists its entries in \<^verbatim>\<open>ReadDir\<close>'s
  order.
\<close>

datatype entry =
    File string
  | NoOpen
  | Folder "(string \<times> entry) list"
  | NoList
  | Link entry
  | Broken

text \<open>
  The collaborators of one run: the package metadata provider (the two \<^verbatim>\<open>build.Context\<close>
  methods), \<^verbatim>\<open>filepath.Abs\<close>, the process environment, \<^verbatim>\<open>build.Default.GOPATH\<close> and
  the source tree under the root directory.
\<close>

record env =
  ImportDir :: "path \<Rightarrow> error + package"
  Import :: "string \<Rightarrow> path \<Rightarrow> error + package"
  Abs :: "path \<Rightarrow> error + path"
  Getenv :: "string \<Rightarrow> string"
  GOPATH :: string
  tree :: entry

section \<open>The skip tables\<close>

text \<open>The package-level \<^verbatim>\<open>skippedPackages\<close> table as it is initialised.\<close>

definition skippedPackages :: "string \<rightharpoonup> bool" where
  "skippedPackages = map_of
    [(''appengine'', True), (''appengine_internal'', True), (''C'', True), (''unsafe'', True),
     (''archive'', True), (''bufio'', True), (''builtin'', True), (''bytes'', True),
     (''compress'', True), (''container'', True), (''context'', True), (''crypto'', True),
     (''database'', True), (''debug'', True), (''encoding'', True), (''errors'', True),
     (''expvar'', True), (''flag'', True), (''fmt'', True), (''go'', True), (''hash'', True),
     (''html'', True), (''image'', True), (''index'', True), (''io'', True), (''log'', True),
     (''math'', True), (''mime'', True), (''net'', True), (''os'', True), (''path'', True),
     (''plugin'', True), (''reflect'', True), (''regexp'', True), (''runtime'', True),
     (''sort'', True), (''strconv'', True), (''strings'', True), (''sync'', True),
     (''syscall'', True), (''testing'', True), (''text'', True), (''time'', True),
     (''unicode'', True)]"

text \<open>
  Reading a \<^verbatim>\<open>map[string]bool\<close> at a key: the stored value, and \<^verbatim>\<open>false\<close> for a key
  that is absent. This is the test \<^verbatim>\<open>if ok, _ := skippedPackages[firstPart]; ok\<close> and
  the test \<^verbatim>\<open>if skipFiles[n]\<close>.
\<close>

definition lookup_bool :: "('k \<rightharpoonup> bool) \<Rightarrow> 'k \<Rightarrow> bool" where
  "lookup_bool m k = (case m k of None \<Rightarrow> False | Some b \<Rightarrow> b)"

definition skipFiles :: "string \<rightharpoonup> bool" where
  "skipFiles = map_of
    [(''.git'', True), (''.gitconfig'', True), (''.hg'', True), (''.travis.yml'', True)]"

section \<open>analyze\<close>

text \<open>\<^verbatim>\<open>strings.SplitN(s, "/", 2)[0]\<close>: the text before the first slash.\<close>

definition firstPart :: "string \<Rightarrow> string" where
  "firstPart s = takeWhile (\<lambda>c. c \<noteq> CHR ''/'') s"

text \<open>
  The variables of the worklist loop of \<^verbatim>\<open>analyze\<close>; \<open>worklist\<close> is the slice
  \<^verbatim>\<open>imports\<close>. \<open>calls\<close> lists, oldest first, the
  edges handed to \<^verbatim>\<open>ctx.Import\<close>: it is the model's account of that effect and has no
  variable in the source. \<open>failure\<close> holds the error of the \<^verbatim>\<open>return nil, err\<close> that
  leaves the loop.
\<close>

record analysis =
  worklist :: "importFrom list"
  visited :: "importFrom \<rightharpoonup> bool"
  packages :: "package list"
  visitedPackages :: "path \<rightharpoonup> bool"
  calls :: "importFrom list"
  failure :: "error option"

text \<open>The edges \<^verbatim>\<open>importFrom{path: importPath, fromDir: dir}\<close> of a package's imports.\<close>

definition edges_of :: "string list \<Rightarrow> path \<Rightarrow> importFrom list" where
  "edges_of ps dir = map (\<lambda>importPath. \<lparr>path = importPath, fromDir = dir\<rparr>) ps"

text \<open>One pass through the body of \<^verbatim>\<open>for len(imports) != 0\<close>.\<close>

definition iteration :: "env \<Rightarrow> (string \<rightharpoonup> bool) \<Rightarrow> analysis \<Rightarrow> analysis" where
  "iteration ctx skipped st =
     (case worklist st of
        [] \<Rightarrow> st
      | i # rest \<Rightarrow>
          if visited st i \<noteq> None then st\<lparr>worklist := rest\<rparr>
          else if lookup_bool skipped (firstPart (path i)) then st\<lparr>worklist := rest\<rparr>
          else
            (case Import ctx (path i) (fromDir i) of
               Inl err \<Rightarrow>
                 st\<lparr>worklist := rest, visited := (visited st)(i \<mapsto> True),
                    calls := calls st @ [i], failure := Some err\<rparr>
             | Inr pkg \<Rightarrow>
                 (let name = filepath_Join (SrcRoot pkg) (ImportPath pkg) in
                  st\<lparr>worklist := rest @ edges_of (Imports pkg) (Dir pkg),
                     visited := (visited st)(i \<mapsto> True),
                     calls := calls st @ [i],
                     packages :=
                       (if visitedPackages st name \<noteq> None then packages st
                        else packages st @ [pkg]),
                     visitedPackages :=
                       (if visitedPackages st name \<noteq> None then visitedPackages st
                        else (visitedPackages st)(name \<mapsto> True))\<rparr>)))"

definition running :: "analysis \<Rightarrow> bool" where
  "running st = (worklist st \<noteq> [] \<and> failure st = None)"

text \<open>The loop; \<open>None\<close> when it never leaves.\<close>

definition walk :: "env \<Rightarrow> (string \<rightharpoonup> bool) \<Rightarrow> analysis \<Rightarrow> analysis option" where
  "walk ctx skipped st = while_option running (iteration ctx skipped) st"

text \<open>The state on entry to the loop: the root package's imports, each from the directory \<^verbatim>\<open>abs\<close>.\<close>

definition seed :: "path \<Rightarrow> package \<Rightarrow> analysis" where
  "seed absdir pkg =
     \<lparr>worklist = edges_of (Imports pkg) absdir, visited = Map.empty, packages = [],
      visitedPackages = Map.empty, calls = [], failure = None\<rparr>"

text \<open>What \<^verbatim>\<open>analyze\<close> returns from the state in which the loop stopped.\<close>

definition outcome :: "analysis \<Rightarrow> error + package list" where
  "outcome st = (case failure st of Some err \<Rightarrow> Inl err | None \<Rightarrow> Inr (packages st))"

definition analyze :: "env \<Rightarrow> (string \<rightharpoonup> bool) \<Rightarrow> path \<Rightarrow> bool \<Rightarrow> (error + package list) option"
  where
  \<open>analyze ctx skipped dir enforceMain =
     (case Abs ctx dir of
        Inl err \<Rightarrow>
          Some (Inl (Errorf ''could not get absolute path for dir %q: %v'' [Path dir, Err err]))
      | Inr absdir \<Rightarrow>
          (case ImportDir ctx absdir of
             Inl err \<Rightarrow>
               Some (Inl (Errorf ''could not get package for dir %q: %v'' [Path dir, Err err]))
           | Inr pkg \<Rightarrow>
               if enforceMain \<and> \<not> IsCommand pkg
               then Some (Inl (Errorf
                 ''the root of your app needs to be package "main" (currently %q)''
                 [Str (Name pkg)]))
               else map_option outcome (walk ctx skipped (seed absdir pkg))))\<close>

section \<open>Notions used to state the properties of analyze\<close>

text \<open>
  The location \<^verbatim>\<open>filepath.Join(pkg.SrcRoot, pkg.ImportPath)\<close>, which \<^verbatim>\<open>analyze\<close> uses
  as the key of \<^verbatim>\<open>visitedPackages\<close> and \<^verbatim>\<open>bundle\<close> as the directory to copy.
\<close>

definition physical :: "package \<Rightarrow> path" where
  "physical p = filepath_Join (SrcRoot p) (ImportPath p)"

text \<open>What holds of the loop variables before and after every pass.\<close>

definition sound :: "env \<Rightarrow> (string \<rightharpoonup> bool) \<Rightarrow> analysis \<Rightarrow> bool" where
  "sound ctx skipped st \<longleftrightarrow>
     distinct (calls st) \<and>
     dom (visited st) = set (calls st) \<and>
     (\<forall>e \<in> set (calls st). \<not> lookup_bool skipped (firstPart (path e))) \<and>
     distinct (map physical (packages st)) \<and>
     dom (visitedPackages st) = physical ` set (packages st) \<and>
     (\<forall>p \<in> set (packages st). \<exists>e \<in> set (calls st). Import ctx (path e) (fromDir e) = Inr p) \<and>
     (failure st = None \<longrightarrow>
        (\<forall>e \<in> set (calls st). \<exists>p. Import ctx (path e) (fromDir e) = Inr p \<and>
            physical p \<in> physical ` set (packages st)))"

text \<open>
  The error that left the loop is the one the last call of the provider returned, and every
  earlier call succeeded.
\<close>

definition faithful :: "env \<Rightarrow> analysis \<Rightarrow> bool" where
  "faithful ctx st \<longleftrightarrow>
     (\<forall>err. failure st = Some err \<longrightarrow>
        calls st \<noteq> [] \<and>
        Import ctx (path (last (calls st))) (fromDir (last (calls st))) = Inl err) \<and>
     (\<forall>c \<in> set (butlast (calls st)). \<exists>p. Import ctx (path c) (fromDir c) = Inr p)"

text \<open>The edges that the packages resolved so far import.\<close>

definition demanded :: "env \<Rightarrow> analysis \<Rightarrow> importFrom set" where
  "demanded ctx st =
     {e. \<exists>c \<in> set (calls st). \<exists>p. Import ctx (path c) (fromDir c) = Inr p \<and>
           e \<in> set (edges_of (Imports p) (Dir p))}"


text \<open>
  A set of edges that holds, with every edge that is not skipped and that the provider
  resolves, the edges of the resolved package: an import graph is finite when its edges
  lie in a finite set of this kind.
\<close>

definition closed :: "env \<Rightarrow> (string \<rightharpoonup> bool) \<Rightarrow> importFrom set \<Rightarrow> bool" where
  "closed ctx skipped E \<longleftrightarrow>
     (\<forall>e \<in> E. \<not> lookup_bool skipped (firstPart (path e)) \<longrightarrow>
        (\<forall>p. Import ctx (path e) (fromDir e) = Inr p \<longrightarrow>
           set (edges_of (Imports p) (Dir p)) \<subseteq> E))"

text \<open>
  The text of an error: every format string, operand and collaborator text in it. An
  error carries a string when the string occurs in one of them.
\<close>

fun texts :: "error \<Rightarrow> string list"
  and arg_texts :: "arg \<Rightarrow> string list" where
  "texts (Sys t) = [t]"
| "texts (Errorf f as) = f # concat (map arg_texts as)"
| "arg_texts (Str s) = [s]"
| "arg_texts (Path p) = p"
| "arg_texts (Err e) = texts e"

definition carries :: "error \<Rightarrow> string \<Rightarrow> bool" where
  "carries e s = list_ex (\<lambda>t. list_ex (\<lambda>u. prefix s u) (suffixes t)) (texts e)"

section \<open>A sample import graph\<close>

text \<open>
  The application imports \<^verbatim>\<open>a\<close>, \<^verbatim>\<open>fmt\<close> and \<^verbatim>\<open>c\<close>; \<^verbatim>\<open>a\<close> imports \<^verbatim>\<open>b\<close> and
  \<^verbatim>\<open>net/http\<close>; \<^verbatim>\<open>b\<close> imports \<^verbatim>\<open>a\<close> (a cycle) and \<^verbatim>\<open>c\<close> (a diamond).
\<close>

definition demo_pkg :: "string \<Rightarrow> string list \<Rightarrow> package" where
  "demo_pkg n is =
     \<lparr>Name = n, ImportPath = n, SrcRoot = [''gopath'', ''src''],
      Dir = [''gopath'', ''src'', n], Imports = is\<rparr>"

definition demo_Import :: "string \<Rightarrow> path \<Rightarrow> error + package" where
  "demo_Import p d =
     (if p = ''a'' then Inr (demo_pkg ''a'' [''b'', ''net/http''])
      else if p = ''b'' then Inr (demo_pkg ''b'' [''a'', ''c''])
      else if p = ''c'' then Inr (demo_pkg ''c'' [])
      else Inl (Sys ''cannot find package''))"

definition demo_root :: package where
  "demo_root = \<lparr>Name = ''main'', ImportPath = ''.'', SrcRoot = [], Dir = [''app''],
      Imports = [''a'', ''fmt'', ''c'']\<rparr>"

definition demo :: env where
  "demo = \<lparr>ImportDir = (\<lambda>d. Inr demo_root), Import = demo_Import, Abs = Inr,
      Getenv = (\<lambda>v. []), GOPATH = ''/gopath'', tree = Folder []\<rparr>"

definition demo_edges :: "importFrom list" where
  "demo_edges =
     [\<lparr>path = ''a'', fromDir = [''app'']\<rparr>, \<lparr>path = ''fmt'', fromDir = [''app'']\<rparr>,
      \<lparr>path = ''c'', fromDir = [''app'']\<rparr>,
      \<lparr>path = ''b'', fromDir = [''gopath'', ''src'', ''a'']\<rparr>,
      \<lparr>path = ''net/http'', fromDir = [''gopath'', ''src'', ''a'']\<rparr>,
      \<lparr>path = ''a'', fromDir = [''gopath'', ''src'', ''b'']\<rparr>,
      \<lparr>path = ''c'', fromDir = [''gopath'', ''src'', ''b'']\<rparr>]"

text \<open>A provider that finds the application but none of its imports.\<close>

definition lost_root :: package where
  "lost_root = \<lparr>Name = ''main'', ImportPath = ''.'', SrcRoot = [], Dir = [''app''],
      Imports = [''x/y'']\<rparr>"

definition lost :: env where
  "lost = \<lparr>ImportDir = (\<lambda>d. Inr lost_root), Import = (\<lambda>p d. Inl (Sys ''boom'')), Abs = Inr,
      Getenv = (\<lambda>v. []), GOPATH = ''/gopath'', tree = Folder []\<rparr>"

section \<open>Properties of analyze\<close>

lemma iteration_cases:
  assumes "worklist st = i # rest"
  obtains
    (drop) "visited st i \<noteq> None \<or> lookup_bool skipped (firstPart (path i))"
           "iteration ctx skipped st = st\<lparr>worklist := rest\<rparr>"
  | (fail) err where "visited st i = None" "\<not> lookup_bool skipped (firstPart (path i))"
           "Import ctx (path i) (fromDir i) = Inl err"
           "iteration ctx skipped st =
              st\<lparr>worklist := rest, visited := (visited st)(i \<mapsto> True),
                 calls := calls st @ [i], failure := Some err\<rparr>"
  | (resolve) pkg where "visited st i = None" "\<not> lookup_bool skipped (firstPart (path i))"
           "Import ctx (path i) (fromDir i) = Inr pkg"
           "worklist (iteration ctx skipped st) = rest @ edges_of (Imports pkg) (Dir pkg)"
           "visited (iteration ctx skipped st) = (visited st)(i \<mapsto> True)"
           "calls (iteration ctx skipped st) = calls st @ [i]"
           "failure (iteration ctx skipped st) = failure st"
proof (cases "visited st i \<noteq> None \<or> lookup_bool skipped (firstPart (path i))")
  case True
  then show ?thesis using assms drop by (auto simp: iteration_def)
next
  case False
  show ?thesis
  proof (cases "Import ctx (path i) (fromDir i)")
    case (Inl err)
    then show ?thesis using assms False fail by (simp add: iteration_def)
  next
    case (Inr pkg)
    then show ?thesis using assms False resolve [of pkg] by (simp add: iteration_def Let_def)
  qed
qed

lemma iteration_idle: "worklist st = [] \<Longrightarrow> iteration ctx skipped st = st"
  by (simp add: iteration_def)

lemma faithful_iteration:
  assumes "faithful ctx st" "failure st = None"
    and "\<forall>c \<in> set (calls st). \<exists>p. Import ctx (path c) (fromDir c) = Inr p"
  shows "faithful ctx (iteration ctx skipped st)"
proof (cases "worklist st")
  case Nil
  then show ?thesis using assms(1) by (simp add: iteration_idle)
next
  case (Cons i rest)
  then show ?thesis
  proof (cases rule: iteration_cases [where ctx = ctx and skipped = skipped])
    case drop
    then show ?thesis using assms(1,2) by (simp add: faithful_def)
  next
    case (fail err)
    then show ?thesis using assms(3) by (simp add: faithful_def)
  next
    case (resolve pkg)
    then show ?thesis using assms(2,3) by (simp add: faithful_def)
  qed
qed

lemma demanded_snoc:
  "demanded ctx (st\<lparr>calls := calls st @ [i]\<rparr>) =
     demanded ctx st \<union>
     {e. \<exists>p. Import ctx (path i) (fromDir i) = Inr p \<and> e \<in> set (edges_of (Imports p) (Dir p))}"
  by (auto simp: demanded_def)



lemma sound_seed: "sound ctx skipped (seed d pkg)"
  by (simp add: sound_def seed_def)

lemma sound_iteration:
  assumes "sound ctx skipped st"
  shows "sound ctx skipped (iteration ctx skipped st)"
proof (cases "worklist st")
  case Nil
  then show ?thesis using assms by (simp add: iteration_def)
next
  case (Cons i rest)
  show ?thesis
  proof (cases "visited st i \<noteq> None \<or> lookup_bool skipped (firstPart (path i))")
    case True
    then have "iteration ctx skipped st = st\<lparr>worklist := rest\<rparr>"
      using Cons by (auto simp add: iteration_def)
    then show ?thesis using assms by (simp add: sound_def)
  next
    case False
    then have fresh: "i \<notin> set (calls st)" and ns: "\<not> lookup_bool skipped (firstPart (path i))"
      using assms by (auto simp: sound_def)
    show ?thesis
    proof (cases "Import ctx (path i) (fromDir i)")
      case (Inl err)
      then have eq: "iteration ctx skipped st =
          st\<lparr>worklist := rest, visited := (visited st)(i \<mapsto> True),
             calls := calls st @ [i], failure := Some err\<rparr>"
        using Cons False by (simp add: iteration_def)
      show ?thesis unfolding eq using assms fresh ns
        by (auto simp: sound_def)
    next
      case (Inr pkg)
      show ?thesis
      proof (cases "visitedPackages st (physical pkg) \<noteq> None")
        case True
        then have eq: "iteration ctx skipped st =
          st\<lparr>worklist := rest @ edges_of (Imports pkg) (Dir pkg),
             visited := (visited st)(i \<mapsto> True), calls := calls st @ [i]\<rparr>"
          using Cons False Inr by (simp add: iteration_def physical_def)
        from assms have d: "dom (visitedPackages st) = physical ` set (packages st)"
          by (simp add: sound_def)
        from True have "physical pkg \<in> dom (visitedPackages st)" by (simp add: domIff)
        with d have "physical pkg \<in> physical ` set (packages st)" by simp
        then show ?thesis unfolding eq using assms fresh ns Inr
          by (auto simp: sound_def)
      next
        case F2: False
        then have eq: "iteration ctx skipped st =
          st\<lparr>worklist := rest @ edges_of (Imports pkg) (Dir pkg),
             visited := (visited st)(i \<mapsto> True), calls := calls st @ [i],
             packages := packages st @ [pkg],
             visitedPackages := (visitedPackages st)(physical pkg \<mapsto> True)\<rparr>"
          using Cons False Inr by (simp add: iteration_def physical_def)
        from assms have d: "dom (visitedPackages st) = physical ` set (packages st)"
          by (simp add: sound_def)
        from F2 have "physical pkg \<notin> dom (visitedPackages st)" by (simp add: domIff)
        with d have "physical pkg \<notin> physical ` set (packages st)" by simp
        then show ?thesis unfolding eq using assms fresh ns Inr
          by (auto simp: sound_def)
      qed
    qed
  qed
qed


lemma worklist_iteration_subset:
  assumes "closed ctx skipped E" "set (worklist st) \<subseteq> E"
  shows "set (worklist (iteration ctx skipped st)) \<subseteq> E"
proof (cases "worklist st")
  case Nil
  then show ?thesis by (simp add: iteration_def)
next
  case (Cons i rest)
  then have iE: "i \<in> E" and rE: "set rest \<subseteq> E" using assms(2) by auto
  from Cons show ?thesis
  proof (cases rule: iteration_cases [where ctx = ctx and skipped = skipped])
    case drop
    then show ?thesis using rE by simp
  next
    case (fail err)
    then show ?thesis using rE by simp
  next
    case (resolve pkg)
    with assms(1) iE have "set (edges_of (Imports pkg) (Dir pkg)) \<subseteq> E"
      unfolding closed_def by blast
    with resolve rE show ?thesis by simp
  qed
qed

lemma iteration_decreases:
  assumes "finite E" "set (worklist st) \<subseteq> E" "worklist st \<noteq> []"
  shows "(iteration ctx skipped st, st) \<in>
           measures [\<lambda>s. card (E - dom (visited s)), \<lambda>s. length (worklist s)]"
proof -
  from assms(3) obtain i rest where w: "worklist st = i # rest" by (cases "worklist st") auto
  then have iE: "i \<in> E" using assms(2) by auto
  have fresh: "card (E - dom ((visited st)(i \<mapsto> True))) < card (E - dom (visited st))"
    if "visited st i = None"
  proof (rule psubset_card_mono)
    show "finite (E - dom (visited st))" using assms(1) by simp
    have "i \<in> E - dom (visited st)" using iE that by (simp add: domIff)
    then show "E - dom ((visited st)(i \<mapsto> True)) \<subset> E - dom (visited st)" by auto
  qed
  from w show ?thesis
  proof (cases rule: iteration_cases [where ctx = ctx and skipped = skipped])
    case drop
    then show ?thesis using w by simp
  next
    case (fail err)
    then show ?thesis using fresh by simp
  next
    case (resolve pkg)
    then show ?thesis using fresh by simp
  qed
qed

lemma walk_returns:
  assumes "finite E" "closed ctx skipped E"
  shows "set (worklist st) \<subseteq> E \<Longrightarrow> \<exists>t. walk ctx skipped st = Some t"
proof (induction st rule: wf_induct_rule
    [OF wf_measures [of "[\<lambda>s. card (E - dom (visited s)), \<lambda>s. length (worklist s)]"]])
  case (1 st)
  show ?case
  proof (cases "running st")
    case False
    then show ?thesis by (simp add: walk_def while_option_unfold)
  next
    case True
    then have ne: "worklist st \<noteq> []" by (simp add: running_def)
    have "\<exists>t. walk ctx skipped (iteration ctx skipped st) = Some t"
      using "1.IH" [OF iteration_decreases [OF assms(1) "1.prems" ne]]
        worklist_iteration_subset [OF assms(2) "1.prems"] by blast
    then show ?thesis using True
      by (subst (asm) walk_def, subst walk_def, subst while_option_unfold) simp
  qed
qed


lemma walk_invariant:
  assumes "walk ctx skipped st = Some t" "P st"
    and "\<And>s. P s \<Longrightarrow> running s \<Longrightarrow> P (iteration ctx skipped s)"
  shows "P t"
  using while_option_rule [where P = P, OF assms(3) assms(1) [unfolded walk_def] assms(2)] .

lemma walk_stops: "walk ctx skipped st = Some t \<Longrightarrow> worklist t = [] \<or> failure t \<noteq> None"
  using while_option_stop [of running "iteration ctx skipped" st t]
  by (simp add: walk_def running_def)

lemma walk_sound:
  assumes "walk ctx skipped (seed d root) = Some t"
  shows "sound ctx skipped t"
  by (rule walk_invariant [where P = "sound ctx skipped", OF assms sound_seed])
    (rule sound_iteration)

lemma walk_faithful:
  assumes "walk ctx skipped (seed d root) = Some t"
  shows "faithful ctx t"
proof -
  let ?P = "\<lambda>s. faithful ctx s \<and> sound ctx skipped s"
  have "?P t"
  proof (rule walk_invariant [where P = ?P, OF assms])
    show "?P (seed d root)" by (simp add: sound_seed) (simp add: faithful_def seed_def)
    show "?P (iteration ctx skipped s)" if "?P s" "running s" for s
    proof -
      from that have f: "failure s = None" by (simp add: running_def)
      with that(1) have "\<forall>c \<in> set (calls s). \<exists>p. Import ctx (path c) (fromDir c) = Inr p"
        unfolding sound_def by blast
      with that(1) f show ?thesis by (simp add: faithful_iteration sound_iteration)
    qed
  qed
  then show ?thesis by simp
qed


lemma sound_funpow: "sound ctx skipped ((iteration ctx skipped ^^ n) (seed d root))"
  by (induction n) (simp_all add: sound_seed sound_iteration)








text \<open>
  C2. The work-list loop of analyze stops on every finite import graph, cyclic ones
  included: when the edges of the graph lie in a finite set closed under resolution, analyze
  returns, the loop reaches a final state, and in it no pair of import path and originating
  directory was handed to the provider twice.
\<close>

theorem analyze_terminates:
  assumes "finite E" and "closed ctx skipped E"
    and "\<And>absdir root. Abs ctx dir = Inr absdir \<Longrightarrow> ImportDir ctx absdir = Inr root \<Longrightarrow>
           set (edges_of (Imports root) absdir) \<subseteq> E"
  shows "(\<exists>r. analyze ctx skipped dir enforceMain = Some r) \<and>
         (\<forall>absdir root. Abs ctx dir = Inr absdir \<and> ImportDir ctx absdir = Inr root \<longrightarrow>
            (\<exists>st. walk ctx skipped (seed absdir root) = Some st \<and> \<not> running st \<and>
                  distinct (calls st)))"
proof -
  have w: "\<exists>st. walk ctx skipped (seed absdir root) = Some st \<and> \<not> running st \<and>
      distinct (calls st)"
    if "Abs ctx dir = Inr absdir" "ImportDir ctx absdir = Inr root" for absdir root
  proof -
    have "set (worklist (seed absdir root)) \<subseteq> E" using assms(3) [OF that] by (simp add: seed_def)
    from walk_returns [OF assms(1,2) this] obtain st where
      st: "walk ctx skipped (seed absdir root) = Some st" by blast
    have "\<not> running st" using walk_stops [OF st] by (auto simp: running_def)
    moreover have "distinct (calls st)" using walk_sound [OF st] by (simp add: sound_def)
    ultimately show ?thesis using st by blast
  qed
  have "\<exists>r. analyze ctx skipped dir enforceMain = Some r"
  proof (cases "Abs ctx dir")
    case (Inl err)
    then show ?thesis by (simp add: analyze_def)
  next
    case a: (Inr absdir)
    show ?thesis
    proof (cases "ImportDir ctx absdir")
      case (Inl err)
      then show ?thesis using a by (simp add: analyze_def)
    next
      case (Inr root)
      from w [OF a Inr] obtain st where "walk ctx skipped (seed absdir root) = Some st" by blast
      then show ?thesis using a Inr by (simp add: analyze_def)
    qed
  qed
  with w show ?thesis by blast
qed

lemma demo_closed: "closed demo skippedPackages (set demo_edges)"
  by (simp add: closed_def demo_edges_def demo_def demo_Import_def demo_pkg_def edges_of_def
      lookup_bool_def firstPart_def skippedPackages_def)

theorem analyze_terminates_witness:
  "finite (set demo_edges) \<and> closed demo skippedPackages (set demo_edges) \<and>
   set (edges_of (Imports demo_root) [''app'']) \<subseteq> set demo_edges \<and>
   (\<exists>r. analyze demo skippedPackages [''app''] True = Some r)"
proof -
  have s: "set (edges_of (Imports demo_root) [''app'']) \<subseteq> set demo_edges"
    by (simp add: edges_of_def demo_root_def demo_edges_def)
  have "set (edges_of (Imports root) absdir) \<subseteq> set demo_edges"
    if "Abs demo [''app''] = Inr absdir" "ImportDir demo absdir = Inr root" for absdir root
    using that s by (auto simp: demo_def)
  from analyze_terminates [OF finite_set demo_closed this, of "[''app'']" True] s demo_closed
  show ?thesis by blast
qed

end
